theory Spec2Isabelle
  imports Complex_Main "HOL-Library.AList"
begin

section \<open>Tabular reinforcement learning (simpleai.machine_learning.reinforcement_learning)\<close>

text \<open>
  A shallow embedding of \<^verbatim>\<open>reinforcement_learning.py\<close>.  Conventions:
  \<^item> Python numbers (rewards, utilities, temperatures) are the reals they denote, and the
    arithmetic of the learner and of the exploration strategies is exact.  The temperature
    schedule, whose control flow depends on the range of binary64, carries the range
    limits of floats; the sampling loop of the softmax strategy is also run on binary64
    values where rounding decides what it does.
  \<^item> A Python value that may be \<^verbatim>\<open>None\<close> is an \<open>option\<close>; states and actions are
    dictionary keys and \<^verbatim>\<open>None\<close> is a legal key, so tables are keyed by \<open>'s option\<close> and
    \<open>'a option\<close>.
  \<^item> A \<^verbatim>\<open>dict\<close> is an association list in insertion order, updated with
    \<^const>\<open>AList.update\<close> (an existing key keeps its place, a new key goes last).  The value
    table is the \<^verbatim>\<open>defaultdict\<close> of \<^verbatim>\<open>defaultdict\<close>s the constructor builds, or a seeded table
    of that kind; the counter is a \<^verbatim>\<open>defaultdict\<close> of \<^verbatim>\<open>Counter\<close>s.
  \<^item> An exception is a value \<open>Inl e\<close>; the object a raising method leaves behind is
    not modelled.
  \<^item> The draws of the process-wide random source are explicit arguments.
\<close>

datatype error =
  ValueError | TypeError | IndexError | KeyError
  | OverflowError | ZeroDivisionError | NotImplementedError

subsection \<open>Dictionaries, defaultdict and Counter\<close>

type_synonym ('k, 'v) dict = "('k \<times> 'v) list"

text \<open>The value of \<^verbatim>\<open>d[k]\<close> for a \<^verbatim>\<open>defaultdict\<close> (or a \<^verbatim>\<open>Counter\<close>) with default \<open>dflt\<close>.\<close>

definition dd_get :: "'v \<Rightarrow> ('k, 'v) dict \<Rightarrow> 'k \<Rightarrow> 'v" where
  "dd_get dflt d k = (case map_of d k of None \<Rightarrow> dflt | Some v \<Rightarrow> v)"

text \<open>The effect of reading \<^verbatim>\<open>d[k]\<close> on a \<^verbatim>\<open>defaultdict\<close>: a missing key is inserted with
  the default.  (Reading a \<^verbatim>\<open>Counter\<close> inserts nothing.)\<close>

definition dd_touch :: "'v \<Rightarrow> 'k \<Rightarrow> ('k, 'v) dict \<Rightarrow> ('k, 'v) dict" where
  "dd_touch dflt k d = (case map_of d k of None \<Rightarrow> AList.update k dflt d | Some v \<Rightarrow> d)"

type_synonym ('s, 'a) qtable = "('s option, ('a option, real) dict) dict"
type_synonym ('s, 'a) ctable = "('s option, ('a option, int) dict) dict"

text \<open>\<^verbatim>\<open>self.Q[s][a]\<close> read: the value, and the table after the two default insertions.\<close>

definition Q_read :: "('s, 'a) qtable \<Rightarrow> 's option \<Rightarrow> 'a option \<Rightarrow> real \<times> ('s, 'a) qtable" where
  "Q_read Qt s a =
     (let row = dd_get [] Qt s
      in (dd_get 0 row a, AList.update s (dd_touch 0 a row) Qt))"

text \<open>\<^verbatim>\<open>self.Q[s][a] = v\<close>.\<close>

definition Q_write :: "('s, 'a) qtable \<Rightarrow> 's option \<Rightarrow> 'a option \<Rightarrow> real \<Rightarrow> ('s, 'a) qtable" where
  "Q_write Qt s a v = AList.update s (AList.update a v (dd_get [] Qt s)) Qt"

text \<open>The entry recorded for \<open>(s, a)\<close>, if any (no default, no insertion).\<close>

definition Q_entry :: "('s, 'a) qtable \<Rightarrow> 's option \<Rightarrow> 'a option \<Rightarrow> real option" where
  "Q_entry Qt s a = (case map_of Qt s of None \<Rightarrow> None | Some row \<Rightarrow> map_of row a)"

text \<open>The utility of \<open>(s, a)\<close> as the table presents it: \<open>0\<close> when nothing is recorded.\<close>

definition Q_val :: "('s, 'a) qtable \<Rightarrow> 's option \<Rightarrow> 'a option \<Rightarrow> real" where
  "Q_val Qt s a = dd_get 0 (dd_get [] Qt s) a"

text \<open>\<^verbatim>\<open>self.counter[s][a] += 1\<close>.\<close>

definition counter_incr :: "('s, 'a) ctable \<Rightarrow> 's option \<Rightarrow> 'a option \<Rightarrow> ('s, 'a) ctable" where
  "counter_incr Ct s a =
     (let row = dd_get [] Ct s
      in AList.update s (AList.update a (dd_get 0 row a + 1) row) Ct)"

definition counter_val :: "('s, 'a) ctable \<Rightarrow> 's option \<Rightarrow> 'a option \<Rightarrow> int" where
  "counter_val Ct s a = dd_get 0 (dd_get [] Ct s) a"

text \<open>Python's \<^verbatim>\<open>max\<close> and \<^verbatim>\<open>min\<close> of a sequence: \<^verbatim>\<open>ValueError\<close> on the empty one.\<close>

fun py_max :: "real list \<Rightarrow> error + real" where
  "py_max [] = Inl ValueError"
| "py_max (x # xs) = Inr (fold max xs x)"

fun py_min :: "real list \<Rightarrow> error + real" where
  "py_min [] = Inl ValueError"
| "py_min (x # xs) = Inr (fold min xs x)"

subsection \<open>Exploration strategies\<close>

text \<open>The comprehension \<^verbatim>\<open>[utilities[x] for x in actions]\<close> over a \<^verbatim>\<open>defaultdict\<close> with
  default \<open>0\<close>: the values read, and the mapping after the reads.\<close>

fun read_utilities :: "'k list \<Rightarrow> ('k, real) dict \<Rightarrow> real list \<times> ('k, real) dict" where
  "read_utilities [] d = ([], d)"
| "read_utilities (x # xs) d =
     (let (us, d') = read_utilities xs (dd_touch 0 x d) in (dd_get 0 d x # us, d'))"

text \<open>Modelled from the spec: \<^verbatim>\<open>argmax\<close> of \<^verbatim>\<open>simpleai.search.utils\<close>, which the module imports
  and which is not among the sources.  The spec (4.2, variant A) has it return the
  element of maximum value, ties broken by first-encountered order; the spec is silent
  on an empty sequence, which is given \<^verbatim>\<open>max\<close>'s \<^verbatim>\<open>ValueError\<close>.  An exception of the
  valuation propagates.\<close>

fun argmax_from :: "'a \<Rightarrow> real \<Rightarrow> 'a list \<Rightarrow> ('a \<Rightarrow> error + real) \<Rightarrow> error + 'a" where
  "argmax_from best bv [] f = Inr best"
| "argmax_from best bv (x # xs) f =
     (case f x of
        Inl e \<Rightarrow> Inl e
      | Inr v \<Rightarrow> if bv < v then argmax_from x v xs f else argmax_from best bv xs f)"

fun argmax :: "'a list \<Rightarrow> ('a \<Rightarrow> error + real) \<Rightarrow> error + 'a" where
  "argmax [] f = Inl ValueError"
| "argmax (x # xs) f = (case f x of Inl e \<Rightarrow> Inl e | Inr v \<Rightarrow> argmax_from x v xs f)"

text \<open>The loop of \<^verbatim>\<open>at_least_n_times_exploration\<close> over \<^verbatim>\<open>enumerate(utilities)\<close>, writing
  \<^verbatim>\<open>optimistic_reward\<close> at the indices of under-visited actions.\<close>

definition override_utilities ::
  "real \<Rightarrow> int \<Rightarrow> 'k list \<Rightarrow> ('k, int) dict \<Rightarrow> real list \<Rightarrow> real list" where
  "override_utilities optimistic_reward min_n actions action_counter utilities =
     fold (\<lambda>i us. if dd_get 0 action_counter (actions ! i) < min_n
                   then us[i := optimistic_reward] else us)
          [0..<length utilities] utilities"

text \<open>\<^verbatim>\<open>d[action]\<close> on the plain \<^verbatim>\<open>dict\<close> built from \<^verbatim>\<open>zip(actions, utilities)\<close>.\<close>

definition dict_lookup :: "('k, 'v) dict \<Rightarrow> 'k \<Rightarrow> error + 'v" where
  "dict_lookup d k = (case map_of d k of None \<Rightarrow> Inl KeyError | Some v \<Rightarrow> Inr v)"

text \<open>The function returned by \<^verbatim>\<open>make_at_least_n_times(optimistic_reward, min_n)\<close>.\<close>

definition make_at_least_n_times ::
  "real \<Rightarrow> int \<Rightarrow> 'k list \<Rightarrow> ('k, real) dict \<Rightarrow> real \<Rightarrow> ('k, int) dict
     \<Rightarrow> error + ('k \<times> ('k, real) dict)" where
  "make_at_least_n_times optimistic_reward min_n actions utilities temperature action_counter =
     (let (us, utilities') = read_utilities actions utilities;
          us' = override_utilities optimistic_reward min_n actions action_counter us;
          d = AList.updates actions us' []
      in case argmax actions (dict_lookup d) of
           Inl e \<Rightarrow> Inl e
         | Inr a \<Rightarrow> Inr (a, utilities'))"

text \<open>\<^verbatim>\<open>random.choice(seq)\<close> with the raw draw \<open>k\<close>: an index below the length.\<close>

definition random_choice :: "nat \<Rightarrow> 'a list \<Rightarrow> error + 'a" where
  "random_choice k xs = (if xs = [] then Inl IndexError else Inr (xs ! (k mod length xs)))"

text \<open>The sampling loop of \<^verbatim>\<open>boltzmann_exploration\<close>:
  \<^verbatim>\<open>while i < len(actions) and r >= tot: i += 1; tot += probs[i]\<close>.
  The read \<^verbatim>\<open>probs[i]\<close> after the increment raises when \<open>i\<close> has left the list.\<close>

function boltzmann_loop :: "real list \<Rightarrow> nat \<Rightarrow> real \<Rightarrow> nat \<Rightarrow> real \<Rightarrow> error + nat" where
  "boltzmann_loop probs len_actions r i tot =
     (if i < len_actions \<and> tot \<le> r
      then (if i + 1 < length probs
            then boltzmann_loop probs len_actions r (i + 1) (tot + probs ! (i + 1))
            else Inl IndexError)
      else Inr i)"
  by pat_completeness auto
termination
  by (relation "measure (\<lambda>(probs, len_actions, r, i, tot). length probs - i)") auto

declare boltzmann_loop.simps [simp del]

text \<open>\<^verbatim>\<open>boltzmann_exploration\<close>; \<open>k\<close> is the draw of \<^verbatim>\<open>random.choice\<close> and \<open>r\<close> that of
  \<^verbatim>\<open>random.random()\<close>.  The three divisions raise on a zero divisor.\<close>

definition boltzmann_exploration ::
  "nat \<Rightarrow> real \<Rightarrow> 'k list \<Rightarrow> ('k, real) dict \<Rightarrow> real \<Rightarrow> ('k, int) dict
     \<Rightarrow> error + ('k \<times> ('k, real) dict)" where
  "boltzmann_exploration k r actions utilities temperature action_counter =
     (let (us, utilities') = read_utilities actions utilities;
          temperature' = max temperature (1 / 100)
      in case py_max us of
           Inl e \<Rightarrow> Inl e
         | Inr mx \<Rightarrow>
             (case py_min us of
                Inl e \<Rightarrow> Inl e
              | Inr mn \<Rightarrow>
                  if mx = mn
                  then (case random_choice k actions of
                          Inl e \<Rightarrow> Inl e
                        | Inr a \<Rightarrow> Inr (a, utilities'))
                  else if mx - mn = 0 \<or> temperature' = 0 then Inl ZeroDivisionError
                  else
                    (let es = map (\<lambda>u. exp (((u - mn) / (mx - mn)) / temperature')) us
                     in if sum_list es = 0 then Inl ZeroDivisionError
                        else
                          (let probs = map (\<lambda>u. u / sum_list es) es
                           in case probs of
                                [] \<Rightarrow> Inl IndexError
                              | p0 # ps \<Rightarrow>
                                  (case boltzmann_loop probs (length actions) r 0 p0 of
                                     Inl e \<Rightarrow> Inl e
                                   | Inr i \<Rightarrow>
                                       if i < length actions
                                       then Inr (actions ! i, utilities')
                                       else Inl IndexError)))))"

subsection \<open>The temperature schedule\<close>

text \<open>
  \<^verbatim>\<open>make_exponential_temperature\<close> catches \<^verbatim>\<open>OverflowError\<close>, so its model carries the
  range of binary64: a float is a finite real or an infinity; a real of magnitude at
  least \<open>2^1024 - 2^970\<close> rounds to an infinity, and one of magnitude at most \<open>2^-1075\<close>
  rounds to zero.  Rounding inside the range is not modelled.  The arguments
  \<^verbatim>\<open>initial_temperature\<close> and \<^verbatim>\<open>alpha\<close> are finite floats, \<^verbatim>\<open>n\<close> is an \<^verbatim>\<open>int\<close>.
\<close>

datatype pyfloat = Fin real | PInf | NInf

definition DBL_OVF :: real where
  "DBL_OVF = 2 ^ 1024 - 2 ^ 970"

definition DBL_TINY :: real where
  "DBL_TINY = 1 / 2 ^ 1075"

text \<open>Rounding at the top of the range.\<close>

definition overflow :: "real \<Rightarrow> pyfloat" where
  "overflow x = (if DBL_OVF \<le> x then PInf else if x \<le> - DBL_OVF then NInf else Fin x)"

text \<open>Rounding at both ends of the range: the result of an operation whose being zero
  matters.\<close>

definition fl :: "real \<Rightarrow> pyfloat" where
  "fl x = (case overflow x of
             Fin y \<Rightarrow> if \<bar>y\<bar> \<le> DBL_TINY then Fin 0 else Fin y
           | PInf \<Rightarrow> PInf
           | NInf \<Rightarrow> NInf)"

text \<open>The conversion of the \<^verbatim>\<open>int\<close> operand of \<^verbatim>\<open>n * alpha\<close>: \<^verbatim>\<open>OverflowError\<close> (int too
  large to convert to float) outside the range.\<close>

definition float_of_int :: "int \<Rightarrow> error + real" where
  "float_of_int n = (case overflow (of_int n) of
                       Fin x \<Rightarrow> Inr x
                     | PInf \<Rightarrow> Inl OverflowError
                     | NInf \<Rightarrow> Inl OverflowError)"

text \<open>Float multiplication of finite operands never raises; it overflows to an infinity.
  (An underflow of the product is a rounding of the exponent handed to \<^verbatim>\<open>math.exp\<close>, whose
  result it changes by less than a rounding.)\<close>

definition float_mul :: "real \<Rightarrow> real \<Rightarrow> pyfloat" where
  "float_mul x y = overflow (x * y)"

text \<open>\<^verbatim>\<open>math.exp\<close>: \<^verbatim>\<open>OverflowError\<close> (math range error) when the result of a finite
  argument overflows; an underflow is silently zero; infinities map to infinity and zero.\<close>

fun math_exp :: "pyfloat \<Rightarrow> error + pyfloat" where
  "math_exp (Fin x) = (case fl (exp x) of PInf \<Rightarrow> Inl OverflowError | NInf \<Rightarrow> Inl OverflowError
                       | Fin y \<Rightarrow> Inr (Fin y))"
| "math_exp PInf = Inr PInf"
| "math_exp NInf = Inr (Fin 0)"

text \<open>Float true division by a float: \<^verbatim>\<open>ZeroDivisionError\<close> on a zero divisor; an
  overflowing quotient is an infinity, not an exception.\<close>

fun float_truediv :: "real \<Rightarrow> pyfloat \<Rightarrow> error + pyfloat" where
  "float_truediv x (Fin y) = (if y = 0 then Inl ZeroDivisionError else Inr (fl (x / y)))"
| "float_truediv x PInf = Inr (Fin 0)"
| "float_truediv x NInf = Inr (Fin 0)"

text \<open>The function returned by \<^verbatim>\<open>make_exponential_temperature(initial_temperature, alpha)\<close>.\<close>

definition make_exponential_temperature :: "real \<Rightarrow> real \<Rightarrow> int \<Rightarrow> error + pyfloat" where
  "make_exponential_temperature initial_temperature alpha n =
     (case (case float_of_int n of
              Inl e \<Rightarrow> Inl e
            | Inr nf \<Rightarrow>
                (case math_exp (float_mul nf alpha) of
                   Inl e \<Rightarrow> Inl e
                 | Inr d \<Rightarrow> float_truediv initial_temperature d)) of
        Inl e \<Rightarrow> if e = OverflowError then Inr (Fin (1 / 100)) else Inl e
      | Inr t \<Rightarrow> Inr t)"

subsection \<open>The learner\<close>

text \<open>The mutable attributes of a \<^verbatim>\<open>QLearner\<close> object.\<close>

record ('s, 'a) qlearner =
  Q :: "('s, 'a) qtable"
  last_state :: "'s option"
  last_action :: "'a option"
  counter :: "('s, 'a) ctable"
  trials :: int
  last_reward :: "real option"

text \<open>What is fixed at construction or by subclassing: the constructor's arguments and
  the two overridable hooks.  \<open>actions\<close> is the subclass's override (the base body returns
  \<^verbatim>\<open>None\<close>).  An exploration function returns the chosen action and the utilities mapping
  it was handed, as its reads left it.\<close>

type_synonym 'a exploration =
  "'a option list \<Rightarrow> ('a option, real) dict \<Rightarrow> real \<Rightarrow> ('a option, int) dict
     \<Rightarrow> error + ('a option \<times> ('a option, real) dict)"

record ('p, 's, 'a) settings =
  exploration_function :: "'a exploration"
  discount_factor :: real
  temperature_function :: "int \<Rightarrow> error + real"
  update_state :: "'p \<Rightarrow> 's option"
  actions :: "'s option \<Rightarrow> 'a option list"

text \<open>\<^verbatim>\<open>QLearner.__init__\<close> with \<^verbatim>\<open>Q=None\<close> (\<open>None\<close>) or a seeded table.\<close>

definition QLearner_init :: "('s, 'a) qtable option \<Rightarrow> ('s, 'a) qlearner" where
  "QLearner_init Q0 =
     \<lparr>Q = (case Q0 of None \<Rightarrow> [] | Some Qt \<Rightarrow> Qt), last_state = None, last_action = None,
      counter = [], trials = 0, last_reward = None\<rparr>"

definition set_reward :: "('s, 'a) qlearner \<Rightarrow> real \<Rightarrow> bool \<Rightarrow> ('s, 'a) qlearner" where
  "set_reward L reward terminal =
     (let L1 = L\<lparr>last_reward := Some reward\<rparr>
      in if terminal
         then L1\<lparr>trials := trials L1 + 1,
                 Q := Q_write (Q L1) (last_state L1) (last_action L1) reward\<rparr>
         else L1)"

definition learning_rate :: "('p, 's, 'a) settings \<Rightarrow> int \<Rightarrow> error + real" where
  "learning_rate G n =
     (case temperature_function G n of Inl e \<Rightarrow> Inl e | Inr t \<Rightarrow> Inr (min 1 t))"

type_synonym ('p, 's, 'a) update_rule =
  "('p, 's, 'a) settings \<Rightarrow> ('s, 'a) qlearner \<Rightarrow> 's option \<Rightarrow> 'a option \<Rightarrow> real option
     \<Rightarrow> 's option \<Rightarrow> 'a option \<Rightarrow> error + ('s, 'a) qlearner"


text \<open>\<^verbatim>\<open>TD_QLearner.update_rule\<close>.  The augmented assignment reads \<^verbatim>\<open>self.Q[s][a]\<close> first
  (inserting the default), then evaluates the right-hand side from left to right:
  \<^verbatim>\<open>self.Q[cs]\<close> (inserting an empty row), \<^verbatim>\<open>max\<close> of its values, the sum with \<^verbatim>\<open>r\<close>
  (a \<^verbatim>\<open>TypeError\<close> when \<^verbatim>\<open>r\<close> is \<^verbatim>\<open>None\<close>), \<^verbatim>\<open>self.Q[s][a]\<close> again; then it stores.\<close>

definition TD_update_rule :: "('p, 's, 'a) update_rule" where
  "TD_update_rule G L s a r cs ca =
     (let Ct = dd_touch [] s (counter L)
      in case learning_rate G (counter_val Ct s a) of
           Inl e \<Rightarrow> Inl e
         | Inr lr \<Rightarrow>
             (let (old, Q1) = Q_read (Q L) s a;
                  Q2 = dd_touch [] cs Q1
              in case py_max (map snd (dd_get [] Q2 cs)) of
                   Inl e \<Rightarrow> Inl e
                 | Inr m \<Rightarrow>
                     (case r of
                        None \<Rightarrow> Inl TypeError
                      | Some rv \<Rightarrow>
                          (let (old', Q3) = Q_read Q2 s a
                           in Inr (L\<lparr>counter := Ct,
                                     Q := Q_write Q3 s a
                                            (old + lr * (rv + discount_factor G * m - old'))\<rparr>)))))"

text \<open>\<^verbatim>\<open>SARSA_Learner.update_rule\<close>, in the same evaluation order.\<close>

definition SARSA_update_rule :: "('p, 's, 'a) update_rule" where
  "SARSA_update_rule G L s a r cs ca =
     (let Ct = dd_touch [] s (counter L)
      in case learning_rate G (counter_val Ct s a) of
           Inl e \<Rightarrow> Inl e
         | Inr lr \<Rightarrow>
             (let (old, Q1) = Q_read (Q L) s a;
                  (v, Q2) = Q_read Q1 cs ca
              in case r of
                   None \<Rightarrow> Inl TypeError
                 | Some rv \<Rightarrow>
                     (let (old', Q3) = Q_read Q2 s a
                      in Inr (L\<lparr>counter := Ct,
                                Q := Q_write Q3 s a
                                       (old + lr * (rv + discount_factor G * v - old'))\<rparr>))))"

text \<open>The second half of \<^verbatim>\<open>QLearner.step\<close>: the deferred update of the previous
  transition \<open>(s, a)\<close>, then the bookkeeping.\<close>

definition step_finish ::
  "('p, 's, 'a) update_rule \<Rightarrow> ('p, 's, 'a) settings \<Rightarrow> ('s, 'a) qlearner \<Rightarrow> 's option
     \<Rightarrow> 'a option \<Rightarrow> 's option \<Rightarrow> 'a option \<Rightarrow> error + ('a option \<times> ('s, 'a) qlearner)" where
  "step_finish rule G L s a state current_action =
     (if s \<noteq> None
      then (case rule G (L\<lparr>counter := counter_incr (counter L) s a\<rparr>) s a (last_reward L)
                   state current_action of
              Inl e \<Rightarrow> Inl e
            | Inr L' \<Rightarrow>
                Inr (current_action, L'\<lparr>last_state := state, last_action := current_action\<rparr>))
      else Inr (current_action, L\<lparr>last_state := state, last_action := current_action\<rparr>))"

text \<open>\<^verbatim>\<open>QLearner.step\<close>; \<open>rule\<close> is the \<^verbatim>\<open>update_rule\<close> of the learner's class.  The
  arguments of the exploration call are evaluated from left to right: \<^verbatim>\<open>self.Q[state]\<close>
  and \<^verbatim>\<open>self.counter[state]\<close> insert an empty row each when the state is new.\<close>

definition step ::
  "('p, 's, 'a) update_rule \<Rightarrow> ('p, 's, 'a) settings \<Rightarrow> ('s, 'a) qlearner \<Rightarrow> 'p
     \<Rightarrow> error + ('a option \<times> ('s, 'a) qlearner)" where
  "step rule G L percept =
     (let s = last_state L;
          a = last_action L;
          state = update_state G percept;
          acts = actions G state
      in if length acts > 0
         then (case temperature_function G (trials L) of
                 Inl e \<Rightarrow> Inl e
               | Inr t \<Rightarrow>
                   (let Ct = dd_touch [] state (counter L)
                    in case exploration_function G acts (dd_get [] (Q L) state) t
                              (dd_get [] Ct state) of
                         Inl e \<Rightarrow> Inl e
                       | Inr (current_action, row) \<Rightarrow>
                           step_finish rule G
                             (L\<lparr>Q := AList.update state row (Q L), counter := Ct\<rparr>)
                             s a state current_action))
         else step_finish rule G L s a state None)"

subsection \<open>Notions of the specification\<close>

text \<open>The effective utility of variant A: \<^verbatim>\<open>optimistic_reward\<close> for an action visited
  fewer than \<^verbatim>\<open>min_n\<close> times, the table utility (default \<open>0\<close>) otherwise.\<close>

definition effective_utility ::
  "real \<Rightarrow> int \<Rightarrow> ('k, real) dict \<Rightarrow> ('k, int) dict \<Rightarrow> 'k \<Rightarrow> real" where
  "effective_utility optimistic_reward min_n utilities action_counter x =
     (if dd_get 0 action_counter x < min_n then optimistic_reward else dd_get 0 utilities x)"

text \<open>The softmax distribution of variant B over the utilities \<open>us\<close>: min-max normalised,
  divided by the temperature floored at \<open>0.01\<close>, exponentiated, normalised to sum one.\<close>

definition boltzmann_probs :: "real \<Rightarrow> real list \<Rightarrow> real list" where
  "boltzmann_probs temperature us =
     (let T = max temperature (1 / 100);
          es = map (\<lambda>u. exp (((u - Min (set us)) / (Max (set us) - Min (set us))) / T)) us
      in map (\<lambda>e. e / sum_list es) es)"

subsection \<open>Example learners\<close>

text \<open>A problem with two actions in state \<open>0\<close> and none elsewhere, percepts being states;
  the learning rate is constantly one, and with \<^verbatim>\<open>min_n = 0\<close> no utility is overridden.\<close>

definition example_settings :: "real \<Rightarrow> (int, int, int) settings" where
  "example_settings discount =
     \<lparr>exploration_function = make_at_least_n_times 10 0, discount_factor = discount,
      temperature_function = (\<lambda>n. Inr 1), update_state = Some,
      actions = (\<lambda>s. if s = Some 0 then [Some 1, Some 2] else [])\<rparr>"


text \<open>A learner about to update \<open>(0, 0)\<close>, with \<open>Q[2][0] = 2\<close> recorded.\<close>

definition example_learner :: "(int, int) qlearner" where
  "example_learner =
     \<lparr>Q = [(Some 2, [(Some 0, 2)])], last_state = Some 0, last_action = Some 0,
      counter = [], trials = 0, last_reward = Some 1\<rparr>"


text \<open>\<open>example_learner\<close> after the terminal reward \<open>5\<close> and a step into the dead end \<open>7\<close>.\<close>

definition example_after :: "(int, int) qlearner" where
  "example_after =
     \<lparr>Q = [(Some 2, [(Some 0, 2)]), (Some 0, [(Some 0, 5)]), (Some 7, [(None, 0)])],
      last_state = Some 7, last_action = None, counter = [(Some 0, [(Some 0, 1)])],
      trials = 1, last_reward = Some 5\<rparr>"


section \<open>Properties\<close>

subsection \<open>Terminal rewards\<close>

lemma Q_entry_Q_write_same: "Q_entry (Q_write Qt s a v) s a = Some v"
  by (simp add: Q_entry_def Q_write_def update_conv')

lemma Q_val_Q_write_same: "Q_val (Q_write Qt s a v) s a = v"
  by (simp add: Q_val_def Q_write_def dd_get_def update_conv')

text \<open>
  Claim C2.  For every reward \<open>r\<close>, \<^verbatim>\<open>set_reward(r, terminal=True)\<close> records
  \<open>last_reward = r\<close>, increments \<open>trials\<close> by exactly one and overwrites the table
  entry of \<open>(last_state, last_action)\<close> with exactly \<open>r\<close>, whatever was recorded there.
\<close>

theorem set_reward_terminal:
  "last_reward (set_reward L r True) = Some r
   \<and> trials (set_reward L r True) = trials L + 1
   \<and> Q_entry (Q (set_reward L r True)) (last_state L) (last_action L) = Some r
   \<and> Q_val (Q (set_reward L r True)) (last_state L) (last_action L) = r"
  by (simp add: set_reward_def Q_entry_Q_write_same Q_val_Q_write_same)

theorem set_reward_terminal_witness:
  "Q_val (Q (set_reward example_learner 5 True)) (Some 0) (Some 0) = 5
   \<and> trials (set_reward example_learner 5 True) = 1"
  using set_reward_terminal [of example_learner 5] by (simp add: example_learner_def)

subsection \<open>Reads of the tables\<close>

lemma dd_get_dd_touch [simp]: "dd_get dflt (dd_touch dflt x d) k = dd_get dflt d k"
  by (auto simp: dd_get_def dd_touch_def update_conv' split: option.splits)


lemma Q_val_Q_read [simp]: "fst (Q_read Qt s a) = Q_val Qt s a"
  by (simp add: Q_read_def Q_val_def Let_def)

lemma Q_val_snd_Q_read [simp]: "Q_val (snd (Q_read Qt s a)) s' a' = Q_val Qt s' a'"
  by (auto simp: Q_read_def Q_val_def dd_get_def dd_touch_def update_conv' Let_def
      split: option.splits)


lemma counter_val_dd_touch [simp]: "counter_val (dd_touch [] k Ct) s a = counter_val Ct s a"
  by (auto simp: counter_val_def dd_get_def dd_touch_def update_conv' split: option.splits)

lemma counter_val_counter_incr:
  "counter_val (counter_incr Ct s a) s' a' =
     (if s' = s \<and> a' = a then counter_val Ct s a + 1 else counter_val Ct s' a')"
  by (auto simp: counter_val_def counter_incr_def dd_get_def update_conv' Let_def
      split: option.splits)

lemma py_max_Max: "py_max xs = Inr (Max (set xs))" if "xs \<noteq> []"
proof (cases xs)
  case Nil
  with that show ?thesis by simp
next
  case (Cons x ys)
  have "Max (set (x # ys)) = fold max ys x" by (rule Max.set_eq_fold)
  with Cons show ?thesis by (simp del: set_simps)
qed

lemma py_min_Min: "py_min xs = Inr (Min (set xs))" if "xs \<noteq> []"
proof (cases xs)
  case Nil
  with that show ?thesis by simp
next
  case (Cons x ys)
  have "Min (set (x # ys)) = fold min ys x" by (rule Min.set_eq_fold)
  with Cons show ?thesis by (simp del: set_simps)
qed

subsection \<open>The update rules\<close>

text \<open>
  Claim C3.  Whenever the temperature function returns \<open>t\<close> at the visit count of
  \<open>(s, a)\<close>, \<^verbatim>\<open>SARSA_Learner.update_rule\<close> with reward \<open>r\<close> returns, and it sets \<open>Q[s][a]\<close>
  to \<open>Q[s][a] + lr * (r + discount_factor * Q[cs][ca] - Q[s][a])\<close> with
  \<open>lr = learning_rate(counter[s][a]) = min(1, t)\<close>, which never exceeds one.
\<close>

theorem SARSA_update_rule_value:
  assumes "temperature_function G (counter_val (counter L) s a) = Inr t"
  shows "\<exists>L'. SARSA_update_rule G L s a (Some r) cs ca = Inr L'
           \<and> Q_val (Q L') s a =
               Q_val (Q L) s a
                 + min 1 t * (r + discount_factor G * Q_val (Q L) cs ca - Q_val (Q L) s a)
           \<and> learning_rate G (counter_val (counter L) s a) = Inr (min 1 t)
           \<and> min 1 t \<le> 1"
  using assms
  by (simp add: SARSA_update_rule_def learning_rate_def split_beta Q_val_Q_write_same Let_def)

text \<open>The instance of the specification: \<open>Q[s][a] = 0\<close>, \<open>Q[cs][ca] = 2\<close>, \<open>r = 1\<close>,
  discount \<open>0.5\<close> and learning rate \<open>1\<close> give \<open>2\<close>.\<close>

theorem SARSA_update_rule_value_witness:
  "\<exists>L'. SARSA_update_rule (example_settings (1 / 2)) example_learner
           (Some 0) (Some 0) (Some 1) (Some 2) (Some 0) = Inr L'
      \<and> Q_val (Q L') (Some 0) (Some 0) = 2"
proof -
  have t: "temperature_function (example_settings (1 / 2))
             (counter_val (counter example_learner) (Some 0) (Some 0)) = Inr 1"
    by (simp add: example_settings_def)
  have q: "Q_val (Q example_learner) (Some 0) (Some 0) = 0"
    "Q_val (Q example_learner) (Some 2) (Some 0) = 2"
    "discount_factor (example_settings (1 / 2)) = 1 / 2"
    by (simp_all add: example_learner_def example_settings_def Q_val_def dd_get_def)
  show ?thesis
    using SARSA_update_rule_value [OF t, of 1 "Some 2" "Some 0"] by (auto simp add: q)
qed

text \<open>When the row of the successor state holds an entry, \<^verbatim>\<open>TD_QLearner.update_rule\<close>
  bootstraps from the maximum of that row.\<close>

lemma TD_update_rule_visited:
  assumes "temperature_function G (counter_val (counter L) s a) = Inr t"
    and "dd_get [] (snd (Q_read (Q L) s a)) cs \<noteq> []"
  shows "\<exists>L'. TD_update_rule G L s a (Some r) cs ca = Inr L'
           \<and> Q_val (Q L') s a =
               Q_val (Q L) s a
                 + min 1 t * (r + discount_factor G
                                    * Max (snd ` set (dd_get [] (snd (Q_read (Q L) s a)) cs))
                              - Q_val (Q L) s a)"
proof -
  let ?Q1 = "snd (Q_read (Q L) s a)"
  have row: "dd_get [] (dd_touch [] cs ?Q1) cs = dd_get [] ?Q1 cs"
    by (auto simp: dd_get_def dd_touch_def update_conv' split: option.splits)
  have val: "Q_val (dd_touch [] cs ?Q1) s a = Q_val (Q L) s a"
    by (auto simp: Q_val_def dd_get_def dd_touch_def update_conv' Q_read_def Let_def
        split: option.splits)
  show ?thesis
    using assms
    by (simp add: TD_update_rule_def learning_rate_def split_beta Q_val_Q_write_same Let_def
        row val py_max_Max)
qed

text \<open>
  Claim C1.  The claim has \<^verbatim>\<open>TD_QLearner.update_rule\<close> take the maximum over an empty row
  of the successor state as \<open>0\<close> and return.  On the instance of the specification
  (\<open>Q[s][a] = 0\<close>, \<open>Q[next]\<close> empty, \<open>r = 1\<close>, discount \<open>0.9\<close>, learning rate \<open>1\<close>) the
  code raises \<^verbatim>\<open>ValueError\<close>: \<^verbatim>\<open>max\<close> is applied to the empty sequence of values.
\<close>

theorem TD_update_rule_unvisited_successor:
  "TD_update_rule (example_settings (9 / 10)) (QLearner_init None)
     (Some 0) (Some 1) (Some 1) (Some 5) None = Inl ValueError"
  by (simp add: TD_update_rule_def example_settings_def QLearner_init_def learning_rate_def
      counter_val_def dd_get_def dd_touch_def Q_read_def Let_def)

subsection \<open>Optimistic-count exploration\<close>

lemma fst_read_utilities: "fst (read_utilities xs d) = map (dd_get 0 d) xs"
  by (induction xs arbitrary: d) (simp_all add: split_beta)


lemma fold_override_length:
  "length (fold (\<lambda>i us. if c i then us[i := v] else us) is us) = length us"
  by (induction "is" arbitrary: us) simp_all

lemma fold_override_nth:
  "n \<le> length us \<Longrightarrow> i < length us \<Longrightarrow>
   fold (\<lambda>i us. if c i then us[i := v] else us) [0..<n] us ! i =
     (if i < n \<and> c i then v else us ! i)"
proof (induction n)
  case 0
  then show ?case by simp
next
  case (Suc n)
  then show ?case
    by (auto simp: fold_override_length nth_list_update less_Suc_eq)
qed

lemma override_utilities_map:
  "override_utilities opt min_n acts cnt (map g acts) =
     map (\<lambda>x. if dd_get 0 cnt x < min_n then opt else g x) acts"
  unfolding override_utilities_def
  by (rule nth_equalityI) (simp_all add: fold_override_length fold_override_nth)

lemma map_of_updates_map:
  "map_of (AList.updates xs (map f xs) al) k = (if k \<in> set xs then Some (f k) else map_of al k)"
  by (induction xs arbitrary: al) (auto simp: update_conv')

text \<open>The running best of \<open>argmax\<close> is the first maximal element of the prefix read.\<close>

lemma argmax_from_first_max:
  assumes "\<forall>x\<in>set xs. f x = Inr (g x)"
    and "i < length pre" and "pre ! i = best" and "bv = g best"
    and "\<forall>j<i. g (pre ! j) < g best" and "\<forall>y\<in>set pre. g y \<le> g best"
  shows "\<exists>a i'. argmax_from best bv xs f = Inr a \<and> i' < length (pre @ xs) \<and> (pre @ xs) ! i' = a
           \<and> (\<forall>j<i'. g ((pre @ xs) ! j) < g a) \<and> (\<forall>y\<in>set (pre @ xs). g y \<le> g a)"
  using assms
proof (induction xs arbitrary: pre best bv i)
  case Nil
  then show ?case by auto
next
  case (Cons x xs)
  have fx: "f x = Inr (g x)" and rest: "\<forall>y\<in>set xs. f y = Inr (g y)"
    using Cons.prems(1) by simp_all
  show ?case
  proof (cases "g best < g x")
    case True
    have "\<exists>a i'. argmax_from x (g x) xs f = Inr a \<and> i' < length ((pre @ [x]) @ xs)
            \<and> ((pre @ [x]) @ xs) ! i' = a
            \<and> (\<forall>j<i'. g (((pre @ [x]) @ xs) ! j) < g a)
            \<and> (\<forall>y\<in>set ((pre @ [x]) @ xs). g y \<le> g a)"
    proof (rule Cons.IH [OF rest, of "length pre" "pre @ [x]" x "g x"])
      show "\<forall>j<length pre. g ((pre @ [x]) ! j) < g x"
      proof (intro allI impI)
        fix j assume j: "j < length pre"
        then have "g (pre ! j) \<le> g best" using Cons.prems(6) nth_mem by blast
        with True j show "g ((pre @ [x]) ! j) < g x" by (simp add: nth_append)
      qed
      show "\<forall>y\<in>set (pre @ [x]). g y \<le> g x"
        using Cons.prems(6) True by fastforce
    qed simp_all
    with True fx Cons.prems(4) show ?thesis by simp
  next
    case False
    have "\<exists>a i'. argmax_from best bv xs f = Inr a \<and> i' < length ((pre @ [x]) @ xs)
            \<and> ((pre @ [x]) @ xs) ! i' = a
            \<and> (\<forall>j<i'. g (((pre @ [x]) @ xs) ! j) < g a)
            \<and> (\<forall>y\<in>set ((pre @ [x]) @ xs). g y \<le> g a)"
    proof (rule Cons.IH [OF rest, of i "pre @ [x]" best bv])
      show "i < length (pre @ [x])" using Cons.prems(2) by simp
      show "(pre @ [x]) ! i = best" using Cons.prems(2,3) by (simp add: nth_append)
      show "bv = g best" by (rule Cons.prems(4))
      show "\<forall>j<i. g ((pre @ [x]) ! j) < g best"
        using Cons.prems(2,5) by (simp add: nth_append)
      show "\<forall>y\<in>set (pre @ [x]). g y \<le> g best"
        using Cons.prems(6) False by auto
    qed
    with False fx Cons.prems(4) show ?thesis by simp
  qed
qed

lemma argmax_first_max:
  assumes "xs \<noteq> []" and "\<forall>x\<in>set xs. f x = Inr (g x)"
  shows "\<exists>a. argmax xs f = Inr a \<and> find (\<lambda>x. \<forall>y\<in>set xs. g y \<le> g x) xs = Some a"
proof -
  from assms(1) obtain x ys where xs: "xs = x # ys" by (cases xs) auto
  have "\<exists>a i'. argmax_from x (g x) ys f = Inr a \<and> i' < length ([x] @ ys) \<and> ([x] @ ys) ! i' = a
           \<and> (\<forall>j<i'. g (([x] @ ys) ! j) < g a) \<and> (\<forall>y\<in>set ([x] @ ys). g y \<le> g a)"
    by (rule argmax_from_first_max [of ys f g 0 "[x]" x "g x"]) (use assms(2) xs in simp_all)
  then obtain a i' where a: "argmax_from x (g x) ys f = Inr a" "i' < length xs" "xs ! i' = a"
    "\<forall>j<i'. g (xs ! j) < g a" "\<forall>y\<in>set xs. g y \<le> g a"
    using xs by auto
  have "find (\<lambda>x. \<forall>y\<in>set xs. g y \<le> g x) xs = Some a"
    unfolding find_Some_iff
  proof (intro exI [of _ i'] conjI allI impI)
    fix j assume "j < i'"
    then have "g (xs ! j) < g a" using a(4) by simp
    moreover have "a \<in> set xs" using a(2,3) nth_mem by blast
    ultimately show "\<not> (\<forall>y\<in>set xs. g y \<le> g (xs ! j))" by (auto simp: not_le)
  qed (use a in auto)
  moreover have "argmax xs f = Inr a"
    using a(1) assms(2) xs by simp
  ultimately show ?thesis by blast
qed

text \<open>
  Claim C6.  On a non-empty action sequence the function returned by
  \<^verbatim>\<open>make_at_least_n_times(optimistic_reward, min_n)\<close> returns the first action of the
  sequence whose effective utility is maximal, where the effective utility of an action
  visited fewer than \<^verbatim>\<open>min_n\<close> times is \<^verbatim>\<open>optimistic_reward\<close> whatever its table value, and
  that of every other action is its table utility.
\<close>

theorem make_at_least_n_times_selects:
  assumes "acts \<noteq> []"
  shows "\<exists>a. make_at_least_n_times opt min_n acts utilities temperature action_counter
               = Inr (a, snd (read_utilities acts utilities))
           \<and> find (\<lambda>x. \<forall>y\<in>set acts. effective_utility opt min_n utilities action_counter y
                                        \<le> effective_utility opt min_n utilities action_counter x)
                 acts = Some a"
proof -
  let ?eff = "effective_utility opt min_n utilities action_counter"
  let ?d = "AList.updates acts
              (override_utilities opt min_n acts action_counter
                 (fst (read_utilities acts utilities))) []"
  have "\<forall>x\<in>set acts. dict_lookup ?d x = Inr (?eff x)"
    by (simp add: dict_lookup_def fst_read_utilities override_utilities_map map_of_updates_map
        effective_utility_def)
  from argmax_first_max [OF assms this]
  show ?thesis
    by (auto simp: make_at_least_n_times_def split_beta Let_def)
qed

text \<open>Actions \<open>4\<close> and \<open>5\<close> are both under-visited and tie at the optimistic reward, above
  the table utility \<open>7\<close> of the visited action \<open>3\<close>: the first of the two is returned.\<close>

theorem make_at_least_n_times_selects_witness:
  "[3, 4, 5 :: int] \<noteq> []
   \<and> (\<exists>row. make_at_least_n_times 10 2 [3, 4, 5 :: int] [(3, 7), (4, 20)] 1 [(3, 2), (4, 1)]
              = Inr (4, row))"
proof -
  let ?eff = "effective_utility 10 2 [(3 :: int, 7), (4, 20)] [(3 :: int, 2), (4, 1)]"
  have e: "?eff 3 = 7" "?eff 4 = 10" "?eff 5 = 10"
    by (simp_all add: effective_utility_def dd_get_def)
  have f: "find (\<lambda>x. \<forall>y\<in>set [3, 4, 5 :: int]. ?eff y \<le> ?eff x) [3, 4, 5 :: int] = Some 4"
    by (simp add: e)
  have ne: "[3, 4, 5 :: int] \<noteq> []" by simp
  from make_at_least_n_times_selects [OF ne, of 10 2 "[(3, 7), (4, 20)]" 1 "[(3, 2), (4, 1)]"]
  obtain a where run: "make_at_least_n_times 10 2 [3, 4, 5 :: int] [(3, 7), (4, 20)] 1
        [(3, 2), (4, 1)] = Inr (a, snd (read_utilities [3, 4, 5] [(3, 7), (4, 20)]))"
    and sel: "find (\<lambda>x. \<forall>y\<in>set [3, 4, 5 :: int]. ?eff y \<le> ?eff x) [3, 4, 5 :: int] = Some a"
    by blast
  from sel have "a = 4" unfolding f by simp
  with run ne show ?thesis by blast
qed

subsection \<open>Softmax exploration\<close>

lemma Max_eq_Min_iff:
  fixes us :: "real list"
  assumes "us \<noteq> []"
  shows "Max (set us) = Min (set us) \<longleftrightarrow> (\<forall>u\<in>set us. \<forall>v\<in>set us. u = v)"
proof
  assume eq: "Max (set us) = Min (set us)"
  show "\<forall>u\<in>set us. \<forall>v\<in>set us. u = v"
  proof (intro ballI)
    fix u v assume "u \<in> set us" "v \<in> set us"
    then have "Min (set us) \<le> u" "u \<le> Max (set us)" "Min (set us) \<le> v" "v \<le> Max (set us)"
      by simp_all
    with eq show "u = v" by linarith
  qed
next
  assume all: "\<forall>u\<in>set us. \<forall>v\<in>set us. u = v"
  have "Max (set us) \<in> set us"
    by (rule Max_in) (use assms in auto)
  moreover have "Min (set us) \<in> set us"
    by (rule Min_in) (use assms in auto)
  ultimately show "Max (set us) = Min (set us)" using all by blast
qed

text \<open>The sampling loop inverts the cumulative distribution: started inside the list with
  the running total of the prefix, and with \<open>r\<close> below the total mass, it stops at the
  least index whose cumulative mass exceeds \<open>r\<close>, and never reads past the list.\<close>

lemma boltzmann_loop_inverts:
  assumes "i < length probs" and "tot = sum_list (take (Suc i) probs)"
    and "r < sum_list probs" and "n = length probs"
  shows "\<exists>j. boltzmann_loop probs n r i tot = Inr j \<and> i \<le> j \<and> j < length probs
           \<and> r < sum_list (take (Suc j) probs)
           \<and> (\<forall>l. i \<le> l \<and> l < j \<longrightarrow> sum_list (take (Suc l) probs) \<le> r)"
  using assms
proof (induction probs n r i tot rule: boltzmann_loop.induct)
  case (1 probs n r i tot)
  show ?case
  proof (cases "i < n \<and> tot \<le> r")
    case True
    have "Suc i \<noteq> length probs"
    proof
      assume "Suc i = length probs"
      then have "tot = sum_list probs" using "1.prems"(2) by simp
      with True "1.prems"(3) show False by simp
    qed
    with "1.prems"(1) have lt: "i + 1 < length probs" by simp
    have tot': "tot + probs ! (i + 1) = sum_list (take (Suc (i + 1)) probs)"
      using lt "1.prems"(2) by (simp add: take_Suc_conv_app_nth)
    from "1.IH" [OF True lt lt tot' "1.prems"(3,4)]
    obtain j where j: "boltzmann_loop probs n r (i + 1) (tot + probs ! (i + 1)) = Inr j"
      "i + 1 \<le> j" "j < length probs" "r < sum_list (take (Suc j) probs)"
      "\<forall>l. i + 1 \<le> l \<and> l < j \<longrightarrow> sum_list (take (Suc l) probs) \<le> r"
      by blast
    have first: "sum_list (take (Suc i) probs) \<le> r"
      using True "1.prems"(2) by simp
    have "\<forall>l. i \<le> l \<and> l < j \<longrightarrow> sum_list (take (Suc l) probs) \<le> r"
    proof (intro allI impI)
      fix l assume l: "i \<le> l \<and> l < j"
      show "sum_list (take (Suc l) probs) \<le> r"
      proof (cases "l = i")
        case True
        with first show ?thesis by simp
      next
        case False
        with l have "i + 1 \<le> l \<and> l < j" by simp
        with j(5) show ?thesis by blast
      qed
    qed
    moreover have "boltzmann_loop probs n r i tot = Inr j"
      using True lt j(1) by (subst boltzmann_loop.simps) simp
    ultimately show ?thesis using j(2,3,4) by auto
  next
    case False
    with "1.prems"(1,4) have "r < tot" by simp
    moreover have "boltzmann_loop probs n r i tot = Inr i"
      by (subst boltzmann_loop.simps) (simp only: False if_False)
    ultimately show ?thesis using "1.prems"(1,2) by auto
  qed
qed

lemma sum_list_pos_real:
  fixes es :: "real list"
  assumes "es \<noteq> []" and "\<forall>e\<in>set es. 0 < e"
  shows "0 < sum_list es"
  using assms by (induction es) (auto simp: add_pos_nonneg order_less_imp_le sum_list_nonneg)

lemma sum_list_normalised:
  fixes es :: "real list"
  assumes "sum_list es \<noteq> 0"
  shows "sum_list (map (\<lambda>e. e / sum_list es) es) = 1"
proof -
  have "sum_list (map (\<lambda>e. e / c) es) = sum_list es / c" for c :: real
    by (induction es) (simp_all add: add_divide_distrib)
  with assms show ?thesis by simp
qed

text \<open>In exact arithmetic the probabilities sum to one, which a draw \<open>r\<close> of
  \<^verbatim>\<open>random.random()\<close> in \<open>[0, 1)\<close> never reaches: for every non-empty action sequence, any
  utilities, temperature and visit counts, \<^verbatim>\<open>boltzmann_exploration\<close> then returns a member of
  the sequence, the element \<^verbatim>\<open>random.choice\<close> drew when all utilities are equal, and
  otherwise the element at the least index whose cumulative softmax probability, at the
  temperature floored at \<open>0.01\<close>, exceeds \<open>r\<close>.\<close>

lemma boltzmann_exploration_exact:
  assumes "acts \<noteq> []" and "0 \<le> r" and "r < 1"
  shows "\<exists>a. boltzmann_exploration k r acts utilities temperature action_counter
               = Inr (a, snd (read_utilities acts utilities))
           \<and> a \<in> set acts
           \<and> (if \<forall>u\<in>set (map (dd_get 0 utilities) acts).
                   \<forall>v\<in>set (map (dd_get 0 utilities) acts). u = v
              then a = acts ! (k mod length acts)
              else \<exists>i<length acts. a = acts ! i
                     \<and> r < sum_list (take (Suc i)
                              (boltzmann_probs temperature (map (dd_get 0 utilities) acts)))
                     \<and> (\<forall>l<i. sum_list (take (Suc l)
                              (boltzmann_probs temperature (map (dd_get 0 utilities) acts))) \<le> r))"
proof -
  let ?us = "map (dd_get 0 utilities) acts"
  let ?T = "max temperature (1 / 100)"
  let ?mx = "Max (set ?us)" and ?mn = "Min (set ?us)"
  let ?es = "map (\<lambda>u. exp (((u - ?mn) / (?mx - ?mn)) / ?T)) ?us"
  let ?probs = "map (\<lambda>e. e / sum_list ?es) ?es"
  have us: "?us \<noteq> []" using assms(1) by simp
  have mx: "py_max ?us = Inr ?mx" and mn: "py_min ?us = Inr ?mn"
    using us by (rule py_max_Max, rule py_min_Min)
  have deg: "?mx = ?mn \<longleftrightarrow> (\<forall>u\<in>set ?us. \<forall>v\<in>set ?us. u = v)"
    by (rule Max_eq_Min_iff [OF us])
  show ?thesis
  proof (cases "?mx = ?mn")
    case True
    have "acts ! (k mod length acts) \<in> set acts"
      using assms(1) by simp
    moreover have "boltzmann_exploration k r acts utilities temperature action_counter
        = Inr (acts ! (k mod length acts), snd (read_utilities acts utilities))"
      using True assms(1) mx mn
      by (simp add: boltzmann_exploration_def split_beta fst_read_utilities random_choice_def
          del: set_map)
    ultimately show ?thesis using True deg by (simp del: set_map)
  next
    case False
    have T: "?T \<noteq> 0" by (simp add: max_def)
    have pos: "0 < sum_list ?es"
      by (rule sum_list_pos_real) (use us in auto)
    then have nz: "sum_list ?es \<noteq> 0" by simp
    have one: "sum_list ?probs = 1" by (rule sum_list_normalised [OF nz])
    have len: "length ?probs = length acts" by simp
    have ne: "?probs \<noteq> []" using assms(1) by simp
    then obtain p0 ps where ps: "?probs = p0 # ps" by (cases ?probs) auto
    then have p0: "p0 = sum_list (take (Suc 0) ?probs)" by simp
    have "\<exists>j. boltzmann_loop ?probs (length acts) r 0 p0 = Inr j \<and> 0 \<le> j \<and> j < length ?probs
           \<and> r < sum_list (take (Suc j) ?probs)
           \<and> (\<forall>l. 0 \<le> l \<and> l < j \<longrightarrow> sum_list (take (Suc l) ?probs) \<le> r)"
    proof (rule boltzmann_loop_inverts)
      show "0 < length ?probs" using ne by blast
      show "p0 = sum_list (take (Suc 0) ?probs)" by (rule p0)
      show "r < sum_list ?probs" using one assms(3) by simp
      show "length acts = length ?probs" by simp
    qed
    then obtain j where j: "boltzmann_loop ?probs (length acts) r 0 p0 = Inr j" "j < length acts"
      "r < sum_list (take (Suc j) ?probs)" "\<forall>l<j. sum_list (take (Suc l) ?probs) \<le> r"
      using len by auto
    have run: "boltzmann_exploration k r acts utilities temperature action_counter
        = Inr (acts ! j, snd (read_utilities acts utilities))"
      using False T nz mx mn ps j(1,2)
      by (simp add: boltzmann_exploration_def split_beta fst_read_utilities Let_def del: set_map)
    have bp: "boltzmann_probs temperature ?us = ?probs"
      by (simp add: boltzmann_probs_def Let_def del: set_map)
    have "acts ! j \<in> set acts" using j(2) by simp
    with run j False deg bp show ?thesis
      by (auto simp del: set_map)
  qed
qed

text \<open>Whatever the draws, a value that \<^verbatim>\<open>boltzmann_exploration\<close> returns is a member of the
  sequence.\<close>

lemma boltzmann_exploration_returns_member:
  assumes "boltzmann_exploration k r acts utilities temperature action_counter = Inr (a, row)"
  shows "a \<in> set acts"
  using assms
  by (auto simp: boltzmann_exploration_def random_choice_def split_beta Let_def
      split: sum.splits if_splits list.splits)

text \<open>
  Claim C9.  The claim has \<^verbatim>\<open>boltzmann_exploration\<close> never raise.  The guard \<open>i < len(actions)\<close>
  of the sampling loop is tested before the increment, so the loop reads \<^verbatim>\<open>probs[i]\<close> one
  past the end as soon as the accumulated total does not exceed \<open>r\<close>.  In binary64 the
  total can round below one: for the utilities \<open>0\<close> and \<open>1\<close> at temperature \<open>3\<close> the two
  probabilities are \<open>3759873325259325 / 2^53\<close> and \<open>2623662964740833 / 2^52\<close>, whose sum is
  \<open>1 - 2^-53\<close>, the largest value of \<^verbatim>\<open>random.random()\<close>.  On these probabilities and that
  draw the loop raises \<^verbatim>\<open>IndexError\<close>.
\<close>

theorem boltzmann_loop_overrun:
  "boltzmann_loop [3759873325259325 / 2 ^ 53, 2623662964740833 / 2 ^ 52] 2
     (9007199254740991 / 2 ^ 53) 0 (3759873325259325 / 2 ^ 53) = Inl IndexError"
  by (simp add: boltzmann_loop.simps)

subsection \<open>One step of the learner\<close>

lemma Q_entry_dd_touch [simp]: "Q_entry (dd_touch [] cs Qt) s a = Q_entry Qt s a"
  by (auto simp: Q_entry_def dd_touch_def update_conv' split: option.splits)



lemma Q_entry_Q_write:
  "Q_entry (Q_write Qt s a v) s' a' = (if s' = s \<and> a' = a then Some v else Q_entry Qt s' a')"
  by (auto simp: Q_entry_def Q_write_def update_conv' dd_get_def split: option.splits)




lemma step_finish_Inr:
  assumes "step_finish rule G L0 s a state ca = Inr (ca', L')"
  shows "ca' = ca"
    and "s = None \<Longrightarrow> L' = L0\<lparr>last_state := state, last_action := ca\<rparr>"
    and "s \<noteq> None \<Longrightarrow>
           \<exists>L2. rule G (L0\<lparr>counter := counter_incr (counter L0) s a\<rparr>) s a (last_reward L0) state ca
                  = Inr L2
              \<and> L' = L2\<lparr>last_state := state, last_action := ca\<rparr>"
  using assms by (auto simp: step_finish_def split: sum.splits if_splits)

lemma step_Inr:
  assumes "step rule G L p = Inr (ca, L')"
  shows "\<exists>L0. step_finish rule G L0 (last_state L) (last_action L) (update_state G p) ca
                 = Inr (ca, L')
           \<and> last_reward L0 = last_reward L
           \<and> counter_val (counter L0) = counter_val (counter L)
           \<and> (if actions G (update_state G p) = [] then L0 = L
               else \<exists>t row. exploration_function G (actions G (update_state G p))
                                (dd_get [] (Q L) (update_state G p)) t
                                (dd_get [] (dd_touch [] (update_state G p) (counter L))
                                   (update_state G p)) = Inr (ca, row)
                      \<and> Q L0 = AList.update (update_state G p) row (Q L))"
proof (cases "actions G (update_state G p) = []")
  case True
  with assms have fin: "step_finish rule G L (last_state L) (last_action L) (update_state G p) None
      = Inr (ca, L')"
    by (simp add: step_def)
  then have "ca = None" using step_finish_Inr(1) by fastforce
  with fin True show ?thesis by auto
next
  case False
  with assms obtain t row where
    ex: "exploration_function G (actions G (update_state G p))
           (dd_get [] (Q L) (update_state G p)) t
           (dd_get [] (dd_touch [] (update_state G p) (counter L)) (update_state G p))
         = Inr (ca, row)"
    and fin: "step_finish rule G
           (L\<lparr>Q := AList.update (update_state G p) row (Q L),
              counter := dd_touch [] (update_state G p) (counter L)\<rparr>)
           (last_state L) (last_action L) (update_state G p) ca = Inr (ca, L')"
  proof -
    from assms False obtain t where t: "temperature_function G (trials L) = Inr t"
      by (auto simp: step_def Let_def split: sum.splits)
    with assms False obtain c row where
      e: "exploration_function G (actions G (update_state G p))
           (dd_get [] (Q L) (update_state G p)) t
           (dd_get [] (dd_touch [] (update_state G p) (counter L)) (update_state G p))
         = Inr (c, row)"
      by (auto simp: step_def Let_def split: sum.splits)
    with assms False t have f: "step_finish rule G
           (L\<lparr>Q := AList.update (update_state G p) row (Q L),
              counter := dd_touch [] (update_state G p) (counter L)\<rparr>)
           (last_state L) (last_action L) (update_state G p) c = Inr (ca, L')"
      by (simp add: step_def Let_def)
    then have "ca = c" using step_finish_Inr(1) by fastforce
    with e f that show ?thesis by blast
  qed
  let ?L0 = "L\<lparr>Q := AList.update (update_state G p) row (Q L),
              counter := dd_touch [] (update_state G p) (counter L)\<rparr>"
  have "counter_val (counter ?L0) = counter_val (counter L)"
    by (simp add: fun_eq_iff)
  with ex fin False show ?thesis
    by (intro exI [of _ ?L0]) auto
qed


lemma step_after_terminal:
  "step SARSA_update_rule (example_settings (1 / 2)) (set_reward example_learner 5 True) 7
     = Inr (None, example_after)"
  by (simp add: step_def step_finish_def example_settings_def set_reward_def
      example_learner_def example_after_def SARSA_update_rule_def learning_rate_def
      counter_val_def counter_incr_def Q_read_def Q_write_def dd_get_def dd_touch_def Let_def)


text \<open>
  Claim C7.  \<^verbatim>\<open>set_reward\<close> never modifies \<open>last_state\<close>, \<open>last_action\<close> or the visitation
  counter.  With \<^verbatim>\<open>terminal=False\<close> it changes only \<open>last_reward\<close>; with \<^verbatim>\<open>terminal=True\<close>
  it changes only \<open>last_reward\<close>, \<open>trials\<close> and the table, where every entry but that of
  \<open>(last_state, last_action)\<close> is as before.  The pair is not reset, so a step that follows
  a terminal reward while a state is recorded, and returns, has applied the update rule
  to that stale pair with the terminal reward, after counting one more visit of it.
\<close>

theorem set_reward_frame:
  "last_state (set_reward L r t) = last_state L
   \<and> last_action (set_reward L r t) = last_action L
   \<and> counter (set_reward L r t) = counter L
   \<and> set_reward L r False = L\<lparr>last_reward := Some r\<rparr>
   \<and> set_reward L r True
       = L\<lparr>last_reward := Some r, trials := trials L + 1, Q := Q (set_reward L r True)\<rparr>
   \<and> (\<forall>s a. (s, a) \<noteq> (last_state L, last_action L)
          \<longrightarrow> Q_entry (Q (set_reward L r True)) s a = Q_entry (Q L) s a)
   \<and> (\<forall>rule G p ca L'.
          last_state L \<noteq> None \<and> step rule G (set_reward L r True) p = Inr (ca, L')
          \<longrightarrow> (\<exists>L1 L2. rule G L1 (last_state L) (last_action L) (Some r) (update_state G p) ca
                          = Inr L2
                  \<and> counter_val (counter L1) (last_state L) (last_action L)
                      = counter_val (counter L) (last_state L) (last_action L) + 1
                  \<and> L' = L2\<lparr>last_state := update_state G p, last_action := ca\<rparr>))"
proof (intro conjI allI impI)
  fix rule :: "('p, 'a, 'b) update_rule" and G p ca L'
  assume a: "last_state L \<noteq> None \<and> step rule G (set_reward L r True) p = Inr (ca, L')"
  let ?L = "set_reward L r True"
  have L: "last_state ?L = last_state L" "last_action ?L = last_action L"
    "last_reward ?L = Some r" "counter ?L = counter L"
    by (simp_all add: set_reward_def)
  from a step_Inr [of rule G ?L p ca L'] obtain L0 where
    fin: "step_finish rule G L0 (last_state L) (last_action L) (update_state G p) ca = Inr (ca, L')"
    and L0: "last_reward L0 = Some r" "counter_val (counter L0) = counter_val (counter L)"
    unfolding L by blast
  from step_finish_Inr(3) [OF fin] a obtain L2 where
    "rule G (L0\<lparr>counter := counter_incr (counter L0) (last_state L) (last_action L)\<rparr>)
        (last_state L) (last_action L) (Some r) (update_state G p) ca = Inr L2"
    "L' = L2\<lparr>last_state := update_state G p, last_action := ca\<rparr>"
    unfolding L0 by blast
  moreover have "counter_val
      (counter (L0\<lparr>counter := counter_incr (counter L0) (last_state L) (last_action L)\<rparr>))
      (last_state L) (last_action L) = counter_val (counter L) (last_state L) (last_action L) + 1"
    by (simp add: counter_val_counter_incr L0)
  ultimately show "\<exists>L1 L2. rule G L1 (last_state L) (last_action L) (Some r) (update_state G p) ca
            = Inr L2
          \<and> counter_val (counter L1) (last_state L) (last_action L)
              = counter_val (counter L) (last_state L) (last_action L) + 1
          \<and> L' = L2\<lparr>last_state := update_state G p, last_action := ca\<rparr>"
    by blast
qed (auto simp: set_reward_def Let_def Q_entry_Q_write)

theorem set_reward_frame_witness:
  "last_state example_learner \<noteq> None
   \<and> step SARSA_update_rule (example_settings (1 / 2)) (set_reward example_learner 5 True) 7
       = Inr (None, example_after)
   \<and> (\<exists>L1 L2. SARSA_update_rule (example_settings (1 / 2)) L1 (Some 0) (Some 0) (Some 5) (Some 7)
                  None = Inr L2
          \<and> counter_val (counter L1) (Some 0) (Some 0) = 1
          \<and> example_after = L2\<lparr>last_state := Some 7, last_action := None\<rparr>)
   \<and> Q_entry (Q (set_reward example_learner 5 True)) (Some 2) (Some 0) = Some 2"
proof -
  note st = set_reward_frame [of example_learner 5 True, THEN conjunct2, THEN conjunct2,
      THEN conjunct2, THEN conjunct2, THEN conjunct2]
  note ent = st [THEN conjunct1, rule_format]
  note upd = st [THEN conjunct2, rule_format]
  have ls: "last_state example_learner = Some 0" "last_action example_learner = Some 0"
    "counter_val (counter example_learner) (Some 0) (Some 0) = 0"
    "Q_entry (Q example_learner) (Some 2) (Some 0) = Some 2"
    "update_state (example_settings (1 / 2)) 7 = Some 7"
    by (simp_all add: example_learner_def counter_val_def dd_get_def Q_entry_def
        example_settings_def)
  have "last_state example_learner \<noteq> None
      \<and> step SARSA_update_rule (example_settings (1 / 2)) (set_reward example_learner 5 True) 7
          = Inr (None, example_after)"
    using step_after_terminal by (simp add: ls)
  from upd [OF this] have a: "\<exists>L1 L2. SARSA_update_rule (example_settings (1 / 2)) L1 (Some 0)
                  (Some 0) (Some 5) (Some 7) None = Inr L2
          \<and> counter_val (counter L1) (Some 0) (Some 0) = 1
          \<and> example_after = L2\<lparr>last_state := Some 7, last_action := None\<rparr>"
    by (simp add: ls)
  have "(Some 2, Some 0) \<noteq> (last_state example_learner, last_action example_learner)"
    by (simp add: ls)
  from ent [OF this] have b: "Q_entry (Q (set_reward example_learner 5 True)) (Some 2) (Some 0)
      = Some 2"
    by (simp add: ls)
  from a b step_after_terminal ls show ?thesis by simp
qed







subsection \<open>The exponential schedule\<close>

lemma DBL_OVF_bounds: "100000 < DBL_OVF" "DBL_OVF \<le> 2 ^ 1024" "0 < DBL_OVF"
  by (simp_all add: DBL_OVF_def)

lemma DBL_TINY_pos: "0 < DBL_TINY" "DBL_TINY < 1"
  by (simp_all add: DBL_TINY_def)

lemma exp_ge_pow2: "2 ^ k \<le> exp (real k)"
proof -
  have "(2::real) \<le> exp 1" using exp_ge_add_one_self [of 1] by simp
  then have "(2::real) ^ k \<le> exp 1 ^ k" by (intro power_mono) simp_all
  also have "\<dots> = exp (real k)" using exp_of_nat_mult [of k "1::real"] by simp
  finally show ?thesis .
qed

lemma exp_le_pow3: "exp (real k) \<le> 3 ^ k"
proof -
  have "exp (real k) = exp 1 ^ k" using exp_of_nat_mult [of k 1] by simp
  also have "\<dots> \<le> 3 ^ k" by (intro power_mono exp_le) simp
  finally show ?thesis .
qed

lemma exp_small: "x \<le> - DBL_OVF \<Longrightarrow> exp x \<le> DBL_TINY"
proof -
  assume "x \<le> - DBL_OVF"
  moreover have "real 1075 \<le> DBL_OVF" using DBL_OVF_bounds(1) by simp
  ultimately have "x \<le> - real 1075" by linarith
  then have "exp x \<le> exp (- real 1075)" by simp
  also have "\<dots> = 1 / exp (real 1075)" by (simp add: exp_minus inverse_eq_divide)
  also have "\<dots> \<le> 1 / 2 ^ 1075"
    using exp_ge_pow2 [of 1075] by (intro divide_left_mono) simp_all
  finally show ?thesis by (simp add: DBL_TINY_def)
qed

lemma float_of_int_cases:
  "float_of_int n = (if DBL_OVF \<le> \<bar>of_int n\<bar> then Inl OverflowError else Inr (of_int n))"
  using DBL_OVF_bounds(3) by (auto simp: float_of_int_def overflow_def abs_if)

lemma math_exp_Fin:
  "math_exp (Fin x) = (if DBL_OVF \<le> exp x then Inl OverflowError
                       else if exp x \<le> DBL_TINY then Inr (Fin 0) else Inr (Fin (exp x)))"
proof -
  have "\<not> exp x \<le> - DBL_OVF"
    using DBL_OVF_bounds(3) exp_gt_zero [of x] by linarith
  then show ?thesis
    by (simp add: fl_def overflow_def)
qed

lemma make_exponential_temperature_cases:
  assumes "DBL_TINY < exp (of_int n * alpha)"
  shows "make_exponential_temperature initial alpha n
          = Inr (if DBL_OVF \<le> \<bar>of_int n\<bar> then Fin (1 / 100)
                 else if DBL_OVF \<le> of_int n * alpha then Fin 0
                 else if DBL_OVF \<le> exp (of_int n * alpha) then Fin (1 / 100)
                 else fl (initial / exp (of_int n * alpha)))"
proof -
  let ?p = "of_int n * alpha"
  have notneg: "\<not> ?p \<le> - DBL_OVF"
    using exp_small [of ?p] assms by auto
  show ?thesis
    using assms notneg
    by (simp add: make_exponential_temperature_def float_of_int_cases float_mul_def
        overflow_def math_exp_Fin del: math_exp.simps(1))
qed




lemma make_exponential_temperature_in_range:
  assumes "0 < initial" and "initial < DBL_OVF" and "0 \<le> alpha" and "0 \<le> n"
    and "of_int n < DBL_OVF" and "exp (of_int n * alpha) < DBL_OVF"
  shows "make_exponential_temperature initial alpha n
           = Inr (Fin (if initial / exp (of_int n * alpha) \<le> DBL_TINY then 0
                       else initial / exp (of_int n * alpha)))"
proof -
  let ?p = "of_int n * alpha"
  have p: "0 \<le> ?p" using assms(3,4) by simp
  then have e1: "1 \<le> exp ?p" by simp
  then have tiny: "DBL_TINY < exp ?p" using DBL_TINY_pos(2) by linarith
  have "?p < exp ?p" using exp_ge_add_one_self [of ?p] by linarith
  then have pov: "\<not> DBL_OVF \<le> ?p" using assms(6) by linarith
  have q: "0 < initial / exp ?p" using assms(1) by simp
  have "initial / exp ?p \<le> initial / 1"
    using e1 assms(1) by (intro divide_left_mono) simp_all
  then have qov: "initial / exp ?p < DBL_OVF" using assms(2) by simp
  have "overflow (initial / exp ?p) = Fin (initial / exp ?p)"
    using q qov DBL_OVF_bounds(3) by (auto simp: overflow_def)
  moreover have "\<bar>initial / exp ?p\<bar> = initial / exp ?p"
    using q by (simp only: abs_of_pos)
  ultimately have flq: "fl (initial / exp ?p)
      = Fin (if initial / exp ?p \<le> DBL_TINY then 0 else initial / exp ?p)"
    by (simp only: fl_def pyfloat.case if_distrib [of Fin])
  from make_exponential_temperature_cases [OF tiny, of initial] pov assms(4,5,6) flq
  show ?thesis by simp
qed

text \<open>The schedule increases for a negative \<^verbatim>\<open>alpha\<close>, and where it saturates it jumps
  from a value below the floor up to the floor.\<close>

theorem make_exponential_temperature_decreasing_counterexample:
  "make_exponential_temperature 1 (- 1) 0 = Inr (Fin 1)
   \<and> make_exponential_temperature 1 (- 1) 1 = Inr (Fin (exp 1))
   \<and> (1 :: real) < exp 1
   \<and> make_exponential_temperature 1 1 10 = Inr (Fin (1 / exp 10))
   \<and> make_exponential_temperature 1 1 1024 = Inr (Fin (1 / 100))
   \<and> 1 / exp 10 < (1 / 100 :: real)"
proof -
  have e1: "(2 :: real) \<le> exp 1" "exp 1 \<le> (3 :: real)"
    using exp_ge_add_one_self [of 1] exp_le by simp_all
  have e10: "(2 :: real) ^ 10 \<le> exp 10" "exp 10 \<le> (3 :: real) ^ 10"
    using exp_ge_pow2 [of 10] exp_le_pow3 [of 10] by simp_all
  have e1024: "DBL_OVF \<le> exp 1024"
    using exp_ge_pow2 [of 1024] DBL_OVF_bounds(2) by simp
  have q10: "1 / 59049 \<le> 1 / exp (10 :: real)" "1 / exp (10 :: real) \<le> 1 / 1024"
    using e10 by (simp_all add: field_simps)
  have m1: "1 / 3 \<le> 1 / exp (1 :: real)" "1 / exp (1 :: real) \<le> 1 / 2"
    using e1 by (simp_all add: field_simps)
  have em1: "exp (- 1) = 1 / exp (1 :: real)"
    by (simp add: exp_minus inverse_eq_divide)
  have e10': "1024 \<le> exp (10 :: real)" "exp (10 :: real) \<le> 59049"
    using e10 by simp_all
  have ov: "\<not> DBL_OVF \<le> 1" "\<not> DBL_OVF \<le> exp 1" "\<not> DBL_OVF \<le> 10" "\<not> DBL_OVF \<le> exp 10"
    "\<not> DBL_OVF \<le> 1024" "\<not> DBL_OVF \<le> 1 / exp 10" "\<not> exp 1 \<le> - DBL_OVF"
    "\<not> 1 / exp 10 \<le> - DBL_OVF" "\<not> DBL_OVF \<le> exp (- 1)"
    using e1 e10' q10 m1 DBL_OVF_bounds(1) unfolding em1 by linarith+
  have "DBL_TINY < 1 / 59049" by (simp add: DBL_TINY_def)
  then have ti: "\<not> 1 / exp 10 \<le> DBL_TINY" "\<not> exp 1 \<le> DBL_TINY" "\<not> 1 \<le> DBL_TINY"
    "\<not> exp 10 \<le> DBL_TINY" "\<not> exp (- 1) \<le> DBL_TINY"
    using e1 e10' q10 m1 unfolding em1 by linarith+
  note em = ov(9)
  have a: "make_exponential_temperature 1 (- 1) 0 = Inr (Fin 1)"
    using ov ti DBL_OVF_bounds(3)
    by (simp add: make_exponential_temperature_def float_of_int_cases float_mul_def
        overflow_def math_exp_Fin fl_def del: math_exp.simps(1))
  have b: "make_exponential_temperature 1 (- 1) 1 = Inr (Fin (exp 1))"
    using ov ti em DBL_OVF_bounds(3)
    by (simp add: make_exponential_temperature_def float_of_int_cases float_mul_def
        overflow_def math_exp_Fin fl_def exp_minus inverse_eq_divide del: math_exp.simps(1))
  have c: "make_exponential_temperature 1 1 10 = Inr (Fin (1 / exp 10))"
    using ov ti DBL_OVF_bounds(3)
    by (simp add: make_exponential_temperature_def float_of_int_cases float_mul_def
        overflow_def math_exp_Fin fl_def del: math_exp.simps(1))
  have d: "make_exponential_temperature 1 1 1024 = Inr (Fin (1 / 100))"
    using ov e1024
    by (simp add: make_exponential_temperature_def float_of_int_cases float_mul_def
        overflow_def math_exp_Fin del: math_exp.simps(1))
  have f: "1 / exp 10 < (1 / 100 :: real)" using q10(2) by linarith
  from a b c d f e1 show ?thesis by simp
qed

text \<open>
  Claim C5 (amended).  For a positive finite \<open>initial\<close>, \<open>alpha \<ge> 0\<close> and integers
  \<open>n2 > n1 \<ge> 0\<close> such that the schedule does not saturate at \<open>n2\<close> (\<open>n2\<close> converts to a
  float and \<open>exp(n2 * alpha)\<close> does not overflow), \<open>temperature(n2) \<le> temperature(n1)\<close>,
  and both values lie in \<open>[0, initial]\<close>, strictly above zero unless the quotient
  underflows.
\<close>

theorem make_exponential_temperature_decreasing:
  assumes "0 < initial" and "initial < DBL_OVF" and "0 \<le> alpha"
    and "0 \<le> n1" and "n1 < n2"
    and "of_int n2 < DBL_OVF" and "exp (of_int n2 * alpha) < DBL_OVF"
  shows "\<exists>t1 t2. make_exponential_temperature initial alpha n1 = Inr (Fin t1)
           \<and> make_exponential_temperature initial alpha n2 = Inr (Fin t2)
           \<and> t2 \<le> t1 \<and> 0 \<le> t2 \<and> t1 \<le> initial
           \<and> (DBL_TINY < initial / exp (of_int n2 * alpha) \<longrightarrow> 0 < t2)"
proof -
  let ?q1 = "initial / exp (of_int n1 * alpha)" and ?q2 = "initial / exp (of_int n2 * alpha)"
  have le: "of_int n1 * alpha \<le> of_int n2 * alpha"
    using assms(3,5) by (intro mult_right_mono) simp_all
  then have e: "exp (of_int n1 * alpha) \<le> exp (of_int n2 * alpha)" by simp
  have e1: "exp (of_int n1 * alpha) < DBL_OVF" using e assms(7) by linarith
  have n1: "of_int n1 < DBL_OVF" using assms(5,6) by linarith
  have r1: "make_exponential_temperature initial alpha n1
      = Inr (Fin (if ?q1 \<le> DBL_TINY then 0 else ?q1))"
    using assms(1-4) n1 e1 by (intro make_exponential_temperature_in_range)
  have r2: "make_exponential_temperature initial alpha n2
      = Inr (Fin (if ?q2 \<le> DBL_TINY then 0 else ?q2))"
    using assms by (intro make_exponential_temperature_in_range) simp_all
  have q21: "?q2 \<le> ?q1"
    using e assms(1) by (intro divide_left_mono) simp_all
  have q2: "0 < ?q2" using assms(1) by simp
  have "1 \<le> exp (of_int n1 * alpha)" using assms(3,4) by simp
  then have "?q1 \<le> initial / 1"
    using assms(1) by (intro divide_left_mono) simp_all
  then have q1: "?q1 \<le> initial" by simp
  let ?t1 = "if ?q1 \<le> DBL_TINY then 0 else ?q1" and ?t2 = "if ?q2 \<le> DBL_TINY then 0 else ?q2"
  have "?t2 \<le> ?t1" using q21 q2 by auto
  moreover have "0 \<le> ?t2" using q2 by auto
  moreover have "?t1 \<le> initial" using q1 assms(1) by auto
  moreover have "DBL_TINY < ?q2 \<longrightarrow> 0 < ?t2" using q2 by auto
  ultimately show ?thesis using r1 r2 by blast
qed

theorem make_exponential_temperature_decreasing_witness:
  "(0 :: real) < 1 \<and> 1 < DBL_OVF \<and> (0 :: real) \<le> 1 \<and> (0 :: int) \<le> 0 \<and> (0 :: int) < 1
   \<and> of_int 1 < DBL_OVF \<and> exp (of_int 1 * 1) < DBL_OVF
   \<and> (\<exists>t1 t2. make_exponential_temperature 1 1 0 = Inr (Fin t1)
           \<and> make_exponential_temperature 1 1 1 = Inr (Fin t2)
           \<and> t2 \<le> t1 \<and> 0 \<le> t2 \<and> t1 \<le> 1)"
proof -
  have h: "(0 :: real) < 1" "1 < DBL_OVF" "(0 :: real) \<le> 1" "(0 :: int) \<le> 0" "(0 :: int) < 1"
    "of_int 1 < DBL_OVF" "exp (of_int 1 * 1) < DBL_OVF"
    using DBL_OVF_bounds(1) exp_le by simp_all
  from make_exponential_temperature_decreasing [OF h] h show ?thesis by blast
qed

end
